theory Spec2Isabelle
  imports Complex_Main
begin

section \<open>The t-walk step method of \<^verbatim>\<open>TWalk.py\<close>\<close>

text \<open>
  The sampler keeps two points of the state space in \<^verbatim>\<open>self.values\<close> and moves one of
  them per call of \<^verbatim>\<open>step()\<close>. Its numbers are numpy floats; they are read here as
  real numbers, so the development speaks about the formulas and the control flow of the
  code and not about rounding. The one NaN the code computes from finite inputs, \<^verbatim>\<open>_g\<close> at
  \<^verbatim>\<open>sigma = 0\<close>, is modelled: the hastings factor is a \<open>real option\<close>, \<open>None\<close> for NaN.
  The logarithm of a uniform draw that is exactly 0 is marked at the definitions.

  Vectors are lists. A scalar value of the variable is a list of length one, which is how
  the code treats it (\<^verbatim>\<open>self._len = 1\<close>, masks and draws of length one).
\<close>

type_synonym vec = "real list"

datatype error =
    ZeroProbability
  | IndexError
  | ValueError
  | ZeroDivisionError
  | AttributeError

subsection \<open>The target variable\<close>

text \<open>
  Modelled from the spec: the class \<^verbatim>\<open>Stochastic\<close> of \<^verbatim>\<open>pymc.PyMCObjects\<close> is not among the
  sources. The spec gives its contract: \<^verbatim>\<open>setValue(v)\<close> sets the current value, and
  \<^verbatim>\<open>revertToPrevious()\<close> restores the value held before the most recent \<^verbatim>\<open>setValue\<close>.
  One remembered value is exactly what that contract needs.
\<close>

record stochastic =
  svalue :: vec
  last_value :: vec

definition set_value :: "vec \<Rightarrow> stochastic \<Rightarrow> stochastic" where
  "set_value v st = \<lparr>svalue = v, last_value = svalue st\<rparr>"

definition revert :: "stochastic \<Rightarrow> stochastic" where
  "revert st = st\<lparr>svalue := last_value st\<rparr>"

subsection \<open>The random source\<close>

text \<open>
  \<^verbatim>\<open>numpy.random\<close> is a global generator. It is an input tape here: one infinite sequence
  for the uniform draws of \<^verbatim>\<open>random()\<close> and one for the normal draws of \<^verbatim>\<open>rnormal()\<close>,
  each with the position of the next unread draw.
\<close>

record rng =
  uniforms :: "nat \<Rightarrow> real"
  upos :: nat
  normals :: "nat \<Rightarrow> real"
  npos :: nat

definition random1 :: "rng \<Rightarrow> real \<times> rng" where
  "random1 g = (uniforms g (upos g), g\<lparr>upos := upos g + 1\<rparr>)"

definition randomN :: "nat \<Rightarrow> rng \<Rightarrow> real list \<times> rng" where
  "randomN n g = (map (\<lambda>i. uniforms g (upos g + i)) [0..<n], g\<lparr>upos := upos g + n\<rparr>)"

definition rnormal :: "rng \<Rightarrow> real \<times> rng" where
  "rnormal g = (normals g (npos g), g\<lparr>npos := npos g + 1\<rparr>)"

subsection \<open>Array operations\<close>

text \<open>
  Elementwise numpy arithmetic on arrays of one length. A boolean mask in an arithmetic
  expression counts as 0 and 1.
\<close>

definition vadd :: "vec \<Rightarrow> vec \<Rightarrow> vec" where
  "vadd xs ys = map2 (+) xs ys"

definition vsub :: "vec \<Rightarrow> vec \<Rightarrow> vec" where
  "vsub xs ys = map2 (-) xs ys"

definition vmul :: "vec \<Rightarrow> vec \<Rightarrow> vec" where
  "vmul xs ys = map2 (*) xs ys"

definition smul :: "real \<Rightarrow> vec \<Rightarrow> vec" where
  "smul c xs = map (\<lambda>x. c * x) xs"

definition vabs :: "vec \<Rightarrow> vec" where
  "vabs xs = map abs xs"

definition mask :: "bool list \<Rightarrow> vec" where
  "mask ph = map of_bool ph"

definition unmask :: "bool list \<Rightarrow> vec" where
  "unmask ph = map (\<lambda>b. of_bool (\<not> b)) ph"

definition nsum :: "bool list \<Rightarrow> nat" where
  "nsum ph = length (filter (\<lambda>b. b) ph)"

text \<open>Python's \<^verbatim>\<open>max\<close> raises \<^verbatim>\<open>ValueError\<close> on an empty sequence.\<close>

definition pymax :: "vec \<Rightarrow> error + real" where
  "pymax xs = (case xs of [] \<Rightarrow> Inl ValueError | y # ys \<Rightarrow> Inr (fold max ys y))"

fun cumsum_from :: "real \<Rightarrow> real list \<Rightarrow> real list" where
  "cumsum_from a [] = []"
| "cumsum_from a (x # xs) = (a + x) # cumsum_from (a + x) xs"

definition cumsum :: "real list \<Rightarrow> real list" where
  "cumsum xs = cumsum_from 0 xs"

text \<open>
  \<^verbatim>\<open>a[k] += 1\<close> on a numpy array: an index past the end raises; the index \<^verbatim>\<open>None\<close> is
  numpy's \<^verbatim>\<open>newaxis\<close> and addresses the whole array.
\<close>

definition incr_at :: "nat option \<Rightarrow> real list \<Rightarrow> error + real list" where
  "incr_at ko a =
     (case ko of
        None \<Rightarrow> Inr (map (\<lambda>x. x + 1) a)
      | Some k \<Rightarrow> if k < length a then Inr (a[k := a ! k + 1]) else Inl IndexError)"

subsection \<open>The sampler\<close>

text \<open>
  The attributes of a \<^verbatim>\<open>TWalk\<close> object. \<^verbatim>\<open>self.values\<close> is the two-element list built by
  the constructor, whose length never changes: a pair. \<^verbatim>\<open>phi\<close> is created by the first
  \<^verbatim>\<open>propose()\<close> and read only after it. \<^verbatim>\<open>n1_attr\<close> is the attribute \<^verbatim>\<open>_n1\<close>, \<open>None\<close>
  while the object has no such attribute.
\<close>

datatype kernel = Walk | Traverse | Blow | Hop

record twalk =
  stochastic :: stochastic
  current_kernel :: "nat option"
  accepted :: "real list"
  rejected :: "real list"
  cum_probs :: "real list"
  walk_theta :: real
  traverse_theta :: real
  len :: nat
  vals :: "vec \<times> vec"
  prime :: bool
  hastings_factor :: "real option"
  p :: real
  phi :: "bool list"
  n1_attr :: "real option"
  gen :: rng

type_synonym 'a res = "(error \<times> twalk) + 'a"

definition kernels :: "kernel list" where
  "kernels = [Walk, Traverse, Blow, Hop]"

text \<open>
  \<^verbatim>\<open>__init__\<close>. \<open>v0\<close> is the variable's value at construction, \<open>fresh\<close> the sample that
  \<^verbatim>\<open>stochastic.random()\<close> would draw (it becomes the variable's value, which the code then
  resets). \<^verbatim>\<open>1.*min(self._len, n1)/self._len\<close> divides Python floats and raises for
  \<^verbatim>\<open>_len = 0\<close>.
\<close>

definition init ::
  "vec \<Rightarrow> vec \<Rightarrow> vec option \<Rightarrow> real list \<Rightarrow> real \<Rightarrow> real \<Rightarrow> real \<Rightarrow> rng \<Rightarrow> error + twalk" where
  "init v0 fresh inits kernel_probs wtheta ttheta n1 g =
     (let st0 = \<lparr>svalue = v0, last_value = v0\<rparr>;
          n = length v0;
          (st, v1) = (case inits of
                        None \<Rightarrow> (set_value v0 (set_value fresh st0), fresh)
                      | Some v \<Rightarrow> (st0, v))
      in if n = 0 then Inl ZeroDivisionError
         else Inr \<lparr>stochastic = st,
                   current_kernel = None,
                   accepted = replicate (length kernel_probs) 0,
                   rejected = replicate (length kernel_probs) 0,
                   cum_probs = cumsum kernel_probs,
                   walk_theta = wtheta,
                   traverse_theta = ttheta,
                   len = n,
                   vals = (v0, v1),
                   prime = False,
                   hastings_factor = Some 0,
                   p = min (real n) n1 / real n,
                   phi = [],
                   n1_attr = None,
                   gen = g\<rparr>)"

text \<open>
  The property \<^verbatim>\<open>n1\<close>. The getter returns \<^verbatim>\<open>self._n1\<close>. The setter stores \<^verbatim>\<open>self._n1\<close> and
  calls \<^verbatim>\<open>self._calc_p()\<close>; \<^verbatim>\<open>TWalk\<close> defines no such method, so the call is whatever the
  superclass \<^verbatim>\<open>StepMethod\<close> (not among the sources) provides: the parameter \<open>calc_p\<close>,
  \<open>None\<close> when the superclass has no such method either.
\<close>

definition n1_fget :: "twalk \<Rightarrow> real res" where
  "n1_fget s = (case n1_attr s of None \<Rightarrow> Inl (AttributeError, s) | Some v \<Rightarrow> Inr v)"

definition n1_fset :: "(twalk \<Rightarrow> twalk res) option \<Rightarrow> real \<Rightarrow> twalk \<Rightarrow> twalk res" where
  "n1_fset calc_p v s =
     (let s1 = s\<lparr>n1_attr := Some v\<rparr>
      in case calc_p of None \<Rightarrow> Inl (AttributeError, s1) | Some f \<Rightarrow> f s1)"

subsection \<open>Kernel selection\<close>

text \<open>\<^verbatim>\<open>sum(self.cum_probs < random())\<close>: the number of cumulative bounds below the draw.\<close>

definition select_kernel :: "real list \<Rightarrow> real \<Rightarrow> nat" where
  "select_kernel cum u = length (filter (\<lambda>c. c < u) cum)"

subsection \<open>The proposal kernels\<close>

text \<open>
  Each kernel reads the mask \<^verbatim>\<open>self.phi\<close>, takes the point to move \<open>x\<close> and the reference
  point \<open>xp\<close> from \<^verbatim>\<open>self.values\<close> according to \<^verbatim>\<open>self._prime\<close>, assigns the proposal to
  \<^verbatim>\<open>self.stochastic.value\<close> and sets \<^verbatim>\<open>self.hastings_factor\<close>.
\<close>

definition points :: "twalk \<Rightarrow> vec \<times> vec" where
  "points s = (if prime s then (snd (vals s), fst (vals s)) else (fst (vals s), snd (vals s)))"

text \<open>
  \<^verbatim>\<open>walk\<close>: one uniform draw per coordinate. \<^verbatim>\<open>theta / (1 + theta)\<close> divides Python floats
  and raises when the divisor is zero.
\<close>

definition walk :: "twalk \<Rightarrow> twalk res" where
  "walk s =
     (let ph = phi s;
          theta = walk_theta s;
          (u, r) = randomN (length ph) (gen s);
          s1 = s\<lparr>gen := r\<rparr>
      in if 1 + theta = 0 then Inl (ZeroDivisionError, s1)
         else
           let z = map (\<lambda>ui. (theta / (1 + theta)) * (theta * ui ^ 2 + 2 * ui - 1)) u;
               (x, xp) = points s1;
               x' = vadd x (vmul (vmul (mask ph) (vsub x xp)) z)
           in Inr (s1\<lparr>stochastic := set_value x' (stochastic s1), hastings_factor := Some 0\<rparr>))"

text \<open>
  \<^verbatim>\<open>traverse\<close>: one scalar \<open>beta\<close> from two uniform draws. For the draw 0 numpy's
  \<^verbatim>\<open>log\<close> is minus infinity, which the real \<open>ln\<close> does not show.
\<close>

definition traverse :: "twalk \<Rightarrow> twalk res" where
  "traverse s =
     (let ph = phi s;
          theta = traverse_theta s;
          (r1, ra) = random1 (gen s);
          s1 = s\<lparr>gen := ra\<rparr>
      in if 2 * theta = 0 then Inl (ZeroDivisionError, s1)
         else
           let first = (r1 < (theta - 1) / (2 * theta))
           in if (if first then theta + 1 = 0 else 1 - theta = 0) then Inl (ZeroDivisionError, s1)
              else
                let (r2, rb) = random1 ra;
                    s2 = s1\<lparr>gen := rb\<rparr>;
                    beta = (if first then exp (1 / (theta + 1) * ln r2)
                            else exp (1 / (1 - theta) * ln r2));
                    (x, xp) = points s2;
                    x' = vadd (vmul (vadd xp (smul beta (vsub xp x))) (mask ph)) (vmul x (unmask ph))
                in Inr (s2\<lparr>stochastic := set_value x' (stochastic s2),
                            hastings_factor := Some ((real (nsum ph) - 2) * ln beta)\<rparr>))"

text \<open>
  \<^verbatim>\<open>_g\<close>, the "density function for blow and hop moves". \<^verbatim>\<open>sum\<close> is Python's, over the
  whole array \<^verbatim>\<open>(h - xp)**2\<close>. All operands are numpy floats, so nothing raises: for
  \<open>sg = 0\<close> the logarithm is minus infinity and the quotient is infinity or NaN, and
  their sum is NaN; for \<open>sg < 0\<close> the logarithm is NaN. \<open>None\<close> is that NaN.
\<close>

definition g :: "bool list \<Rightarrow> vec \<Rightarrow> vec \<Rightarrow> real \<Rightarrow> real option" where
  "g ph h xp sg =
     (if sg \<le> 0 then None
      else
        let nphi = real (nsum ph)
        in Some ((nphi / 2) * ln (2 * pi) + nphi * ln sg
                 + 0.5 * sum_list (map (\<lambda>d. d ^ 2) (vsub h xp)) / (sg ^ 2)))"

text \<open>Float subtraction: NaN where an operand is NaN.\<close>

definition nan_sub :: "real option \<Rightarrow> real option \<Rightarrow> real option" where
  "nan_sub a b = (case a of None \<Rightarrow> None | Some x \<Rightarrow> (case b of None \<Rightarrow> None | Some y \<Rightarrow> Some (x - y)))"

text \<open>\<^verbatim>\<open>blow\<close>: \<^verbatim>\<open>rnormal()\<close> is called without a size, so it returns one number.\<close>

definition blow :: "twalk \<Rightarrow> twalk res" where
  "blow s =
     (let ph = phi s;
          (x, xp) = points s
      in case pymax (vmul (mask ph) (vabs (vsub xp x))) of
           Inl e \<Rightarrow> Inl (e, s)
         | Inr sigma \<Rightarrow>
             let (z, r) = rnormal (gen s);
                 s1 = s\<lparr>gen := r\<rparr>;
                 x' = vadd x (map (\<lambda>b. of_bool b * sigma * z) ph)
             in Inr (s1\<lparr>hastings_factor :=
                           nan_sub (g ph x' xp sigma) (g ph (svalue (stochastic s1)) xp sigma),
                         stochastic := set_value x' (stochastic s1)\<rparr>))"

definition hop :: "twalk \<Rightarrow> twalk res" where
  "hop s =
     (let ph = phi s;
          (x, xp) = points s
      in case pymax (vmul (mask ph) (vabs (vsub xp x))) of
           Inl e \<Rightarrow> Inl (e, s)
         | Inr m \<Rightarrow>
             let sigma = m / 3;
                 (z, r) = rnormal (gen s);
                 s1 = s\<lparr>gen := r\<rparr>;
                 x' = vadd (vmul (map (\<lambda>v. v + sigma * z) xp) (mask ph)) (vmul x (unmask ph))
             in Inr (s1\<lparr>hastings_factor :=
                           nan_sub (g ph x' xp sigma) (g ph (svalue (stochastic s1)) xp sigma),
                         stochastic := set_value x' (stochastic s1)\<rparr>))"

definition run_kernel :: "kernel \<Rightarrow> twalk \<Rightarrow> twalk res" where
  "run_kernel k s = (case k of Walk \<Rightarrow> walk s | Traverse \<Rightarrow> traverse s | Blow \<Rightarrow> blow s | Hop \<Rightarrow> hop s)"

subsection \<open>Proposing, rejecting, stepping\<close>

definition reject :: "twalk \<Rightarrow> twalk res" where
  "reject s =
     (let s1 = s\<lparr>stochastic := revert (stochastic s)\<rparr>
      in case incr_at (current_kernel s1) (rejected s1) of
           Inl e \<Rightarrow> Inl (e, s1)
         | Inr a \<Rightarrow> Inr (s1\<lparr>rejected := a\<rparr>))"

text \<open>Line 360, \<^verbatim>\<open>self.accepted[self.current_kernel] += 1\<close>.\<close>

definition accept :: "twalk \<Rightarrow> twalk res" where
  "accept s =
     (case incr_at (current_kernel s) (accepted s) of
        Inl e \<Rightarrow> Inl (e, s)
      | Inr a \<Rightarrow> Inr (s\<lparr>accepted := a\<rparr>))"

text \<open>\<^verbatim>\<open>self.kernels[self.current_kernel]\<close> raises for an index past the four kernels.\<close>

definition propose :: "twalk \<Rightarrow> twalk res" where
  "propose s =
     (let (u, r1) = random1 (gen s);
          k = select_kernel (cum_probs s) u;
          s1 = s\<lparr>current_kernel := Some k, gen := r1\<rparr>
      in if length kernels \<le> k then Inl (IndexError, s1)
         else
           let (us, r2) = randomN (len s1) r1;
               s2 = s1\<lparr>phi := map (\<lambda>v. v < p s1) us, gen := r2\<rparr>
           in run_kernel (kernels ! k) s2)"

text \<open>
  The loop \<^verbatim>\<open>while not valid_proposal\<close> of \<^verbatim>\<open>step\<close>. It has no bound, so it is a partial
  function: \<open>None\<close> is the loop that never ends.
\<close>

partial_function (option) propose_loop :: "(vec \<Rightarrow> bool) \<Rightarrow> twalk \<Rightarrow> (twalk res) option" where
  "propose_loop support s =
     (case propose s of
        Inl e \<Rightarrow> Some (Inl e)
      | Inr s1 \<Rightarrow>
          if support (svalue (stochastic s1)) then Some (Inr s1)
          else propose_loop support s1)"

text \<open>
  The body of the \<^verbatim>\<open>try\<close> (lines 312 to 324). \<open>logp\<close> is \<^verbatim>\<open>self.logp_plus_loglike\<close> as a
  function of the variable's value, \<open>None\<close> where it raises \<^verbatim>\<open>ZeroProbability\<close>. The
  result is the proposed log-probability and the state.
\<close>

definition try_body ::
  "(vec \<Rightarrow> bool) \<Rightarrow> (vec \<Rightarrow> real option) \<Rightarrow> twalk \<Rightarrow> ((real \<times> twalk) res) option" where
  "try_body support logp s =
     (case propose_loop support s of
        None \<Rightarrow> None
      | Some (Inl e) \<Rightarrow> Some (Inl e)
      | Some (Inr s1) \<Rightarrow>
          if nsum (phi s1) = 0 then Some (Inl (ZeroProbability, s1))
          else (case logp (svalue (stochastic s1)) of
                  None \<Rightarrow> Some (Inl (ZeroProbability, s1))
                | Some lpp \<Rightarrow> Some (Inr (lpp, s1))))"

text \<open>The update of the value list that ends both paths of \<^verbatim>\<open>step\<close> (lines 333 to 343, 364 to 375).\<close>

definition commit :: "twalk \<Rightarrow> twalk" where
  "commit s =
     (if prime s
      then let s1 = s\<lparr>vals := (fst (vals s), svalue (stochastic s))\<rparr>
           in s1\<lparr>stochastic := set_value (fst (vals s1)) (stochastic s1)\<rparr>
      else s\<lparr>vals := (svalue (stochastic s), snd (vals s))\<rparr>)"

text \<open>
  \<^verbatim>\<open>log(random()) > d\<close>. The draw is in \<open>[0, 1)\<close>; for the draw 0 numpy's \<^verbatim>\<open>log\<close> is minus
  infinity and the comparison is false, as it is when \<open>d\<close> is NaN.
\<close>

definition log_gt :: "real \<Rightarrow> real option \<Rightarrow> bool" where
  "log_gt u d = (case d of None \<Rightarrow> False | Some x \<Rightarrow> 0 < u \<and> x < ln u)"

text \<open>Lines 294 to 301: the pivot is drawn, and the auxiliary point is made the live value.\<close>

definition choose_pivot :: "twalk \<Rightarrow> twalk" where
  "choose_pivot s =
     (let (u0, r0) = random1 (gen s);
          s1 = s\<lparr>prime := (u0 < 0.5), gen := r0\<rparr>
      in if prime s1 then s1\<lparr>stochastic := set_value (snd (vals s1)) (stochastic s1)\<rparr> else s1)"

definition step ::
  "(vec \<Rightarrow> bool) \<Rightarrow> (vec \<Rightarrow> real option) \<Rightarrow> twalk \<Rightarrow> (twalk res) option" where
  "step support logp s =
     (let s2 = choose_pivot s
      in case logp (svalue (stochastic s2)) of
           None \<Rightarrow> Some (Inl (ZeroProbability, s2))
         | Some lp \<Rightarrow>
             (case try_body support logp s2 of
                None \<Rightarrow> None
              | Some (Inl (e, s3)) \<Rightarrow>
                  if e = ZeroProbability
                  then (case reject s3 of
                          Inl ex \<Rightarrow> Some (Inl ex)
                        | Inr s4 \<Rightarrow> Some (Inr (commit s4)))
                  else Some (Inl (e, s3))
              | Some (Inr (lpp, s3)) \<Rightarrow>
                  let (u, r) = random1 (gen s3);
                      s4 = s3\<lparr>gen := r\<rparr>
                  in (case (if log_gt u (map_option (\<lambda>h. lpp - lp + h) (hastings_factor s4))
                            then reject s4 else accept s4) of
                        Inl ex \<Rightarrow> Some (Inl ex)
                      | Inr s5 \<Rightarrow> Some (Inr (commit s5)))))"

subsection \<open>Concrete samplers for the examples\<close>

text \<open>A tape that plays the listed draws and zeros after them.\<close>

definition tape :: "real list \<Rightarrow> nat \<Rightarrow> real" where
  "tape xs i = (if i < length xs then xs ! i else 0)"

definition rng_of :: "real list \<Rightarrow> real list \<Rightarrow> rng" where
  "rng_of us ns = \<lparr>uniforms = tape us, upos = 0, normals = tape ns, npos = 0\<rparr>"

text \<open>The default kernel weights of the constructor.\<close>

definition default_probs :: "real list" where
  "default_probs = [4918 / 10000, 4918 / 10000, 82 / 10000, 82 / 10000]"

text \<open>
  A sampler as the constructor leaves it, with the default weights and thetas
  (1.5 and 6.0), for a variable with value \<open>v0\<close> and the auxiliary point \<open>v1\<close>.
\<close>

definition sampler :: "vec \<Rightarrow> vec \<Rightarrow> real \<Rightarrow> rng \<Rightarrow> twalk" where
  "sampler v0 v1 n1 r =
     \<lparr>stochastic = \<lparr>svalue = v0, last_value = v0\<rparr>,
      current_kernel = None,
      accepted = [0, 0, 0, 0],
      rejected = [0, 0, 0, 0],
      cum_probs = cumsum default_probs,
      walk_theta = 3 / 2,
      traverse_theta = 6,
      len = length v0,
      vals = (v0, v1),
      prime = False,
      hastings_factor = Some 0,
      p = min (real (length v0)) n1 / real (length v0),
      phi = [],
      n1_attr = None,
      gen = r\<rparr>"

definition nonneg :: "vec \<Rightarrow> bool" where
  "nonneg v = list_all (\<lambda>x. 0 \<le> x) v"

subsection \<open>Vocabulary of the properties\<close>

text \<open>What no kernel and no proposal touches: the counters, the two points, the configuration, the tapes.\<close>

definition same_config :: "twalk \<Rightarrow> twalk \<Rightarrow> bool" where
  "same_config s s' =
     (accepted s' = accepted s \<and> rejected s' = rejected s \<and> vals s' = vals s
      \<and> prime s' = prime s \<and> cum_probs s' = cum_probs s \<and> len s' = len s \<and> p s' = p s
      \<and> walk_theta s' = walk_theta s \<and> traverse_theta s' = traverse_theta s
      \<and> n1_attr s' = n1_attr s
      \<and> uniforms (gen s') = uniforms (gen s) \<and> normals (gen s') = normals (gen s))"

text \<open>
  A sampler on which \<^verbatim>\<open>propose()\<close> cannot raise: the last cumulative bound covers every
  uniform draw of the tape, the thetas keep the divisors away from zero, and the points
  are not empty.
\<close>

definition never_raises :: "twalk \<Rightarrow> bool" where
  "never_raises s =
     (cum_probs s \<noteq> [] \<and> length (cum_probs s) \<le> length kernels
      \<and> (\<forall>i. uniforms (gen s) i \<le> last (cum_probs s))
      \<and> 1 + walk_theta s \<noteq> 0
      \<and> traverse_theta s \<noteq> 0 \<and> traverse_theta s + 1 \<noteq> 0 \<and> 1 - traverse_theta s \<noteq> 0
      \<and> 0 < len s \<and> fst (vals s) \<noteq> [] \<and> snd (vals s) \<noteq> [])"

text \<open>
  The spec's reading of \<^verbatim>\<open>_g\<close>, for comparison with \<open>g\<close>: the quadratic term summed over
  the masked coordinates only.
\<close>

definition g_masked :: "bool list \<Rightarrow> vec \<Rightarrow> vec \<Rightarrow> real \<Rightarrow> real option" where
  "g_masked ph h xp sg =
     (if sg \<le> 0 then None
      else
        let nphi = real (nsum ph)
        in Some ((nphi / 2) * ln (2 * pi) + nphi * ln sg
                 + 0.5 * sum_list (vmul (mask ph) (map (\<lambda>d. d ^ 2) (vsub h xp))) / (sg ^ 2)))"

text \<open>
  The outcome of a step for the proposal \<open>t\<close> that left the retry loop, \<open>lp\<close> being the
  log-probability of the pivot point: the proposal is rejected when its mask is empty
  (line 318), when its log-probability raises \<^verbatim>\<open>ZeroProbability\<close> (line 322), or when the next
  uniform draw fails the acceptance test of line 353; otherwise it is accepted.
\<close>

definition proposal_rejected :: "(vec \<Rightarrow> real option) \<Rightarrow> real \<Rightarrow> twalk \<Rightarrow> bool" where
  "proposal_rejected logp lp t =
     (nsum (phi t) = 0
      \<or> (case logp (svalue (stochastic t)) of
            None \<Rightarrow> True
          | Some lpp \<Rightarrow>
              log_gt (uniforms (gen t) (upos (gen t)))
                (map_option (\<lambda>h. lpp - lp + h) (hastings_factor t))))"

text \<open>What \<^verbatim>\<open>reject()\<close> does to a state whose kernel index \<open>k\<close> is within the counters.\<close>

definition rejected_at :: "nat \<Rightarrow> twalk \<Rightarrow> twalk" where
  "rejected_at k t =
     t\<lparr>stochastic := revert (stochastic t), rejected := (rejected t)[k := rejected t ! k + 1]\<rparr>"

text \<open>What the retry loop guarantees about its result, and the statement that it has none.\<close>

definition loop_post :: "(vec \<Rightarrow> bool) \<Rightarrow> twalk \<Rightarrow> twalk res \<Rightarrow> bool" where
  "loop_post support s y =
     (case y of
        Inl (e, s') \<Rightarrow> e \<noteq> ZeroProbability
      | Inr s' \<Rightarrow> same_config s s' \<and> (\<exists>k. current_kernel s' = Some k \<and> k < length kernels)
                   \<and> support (svalue (stochastic s')))"

definition diverging :: "(vec \<Rightarrow> bool) \<Rightarrow> twalk \<Rightarrow> twalk res \<Rightarrow> bool" where
  "diverging support s y = (\<not> ((\<forall>v. \<not> support v) \<and> never_raises s))"

subsection \<open>Example runs\<close>

text \<open>
  Inputs of the examples below. The tapes list the uniform draws in the order in which
  \<^verbatim>\<open>step()\<close> consumes them: the pivot draw; per proposal the kernel draw, one mask draw per
  coordinate and the kernel's own draws; the acceptance draw.
\<close>

definition retry_sampler :: twalk where
  "retry_sampler = sampler [0] [1] 4 (rng_of [9 / 10, 1 / 10, 3 / 10, 1 / 2, 1 / 10, 3 / 10, 0, 1 / 2] [])"

definition retry_logp :: "vec \<Rightarrow> real option" where
  "retry_logp v = (if v = [0] then Some 0 else Some (ln (1 / 4)))"

definition flat_logp :: "vec \<Rightarrow> real option" where
  "flat_logp v = Some 0"

definition no_logp :: "vec \<Rightarrow> real option" where
  "no_logp v = None"

definition prime_sampler :: twalk where
  "prime_sampler = sampler [0] [1] 4 (rng_of [1 / 10, 1 / 10, 3 / 10, 0, 1 / 2] [])"

definition zero_mask_sampler :: twalk where
  "zero_mask_sampler =
     sampler [0, 0] [1, 1] 1
       (rng_of [9 / 10, 1 / 10, 3 / 10, 3 / 10, 1 / 2, 1 / 2, 1 / 10, 9 / 10, 9 / 10, 0, 0] [])"

definition half_sampler :: twalk where
  "half_sampler =
     sampler [0] [1] 4 \<lparr>uniforms = (\<lambda>i. 1 / 2), upos = 0, normals = (\<lambda>i. 0), npos = 0\<rparr>"

definition no_support :: "vec \<Rightarrow> bool" where
  "no_support v = False"

definition blow_sampler :: twalk where
  "blow_sampler = sampler [0, 0] [1, 2] 4 (rng_of [99 / 100, 0, 0] [1, 5])"

definition hastings_sampler :: twalk where
  "hastings_sampler =
     sampler [0, 0] [1, 1] 1
       (rng_of [9 / 10, 1 / 10, 9 / 10, 3 / 10, 0, 1 / 2, 99 / 100, 3 / 10, 9 / 10] [1])"

text \<open>
  What a proposal leaves to look at: kernel index, mask, the two points, the live value,
  the value before it, the hastings factor.
\<close>

definition proposal_view ::
  "twalk \<Rightarrow> nat option \<times> bool list \<times> (vec \<times> vec) \<times> vec \<times> vec \<times> real option" where
  "proposal_view t =
     (current_kernel t, phi t, vals t, svalue (stochastic t), last_value (stochastic t),
      hastings_factor t)"

definition single_sampler :: twalk where
  "single_sampler = sampler [0] [1] 4 (rng_of [9 / 10, 1 / 10, 3 / 10, 0] [])"

definition origin_logp :: "vec \<Rightarrow> real option" where
  "origin_logp v = (if v = [0] then Some 0 else None)"

definition empty_mask_sampler :: twalk where
  "empty_mask_sampler = sampler [0, 0] [1, 1] 1 (rng_of [9 / 10, 1 / 10, 9 / 10, 9 / 10, 0, 0] [])"

section \<open>Properties\<close>

subsection \<open>Kernel selection\<close>

lemma cumsum_from_length: "length (cumsum_from a w) = length w"
  by (induction w arbitrary: a) auto

lemma cumsum_from_lower: "\<forall>x\<in>set w. 0 \<le> x \<Longrightarrow> c \<in> set (cumsum_from a w) \<Longrightarrow> a \<le> c"
proof (induction w arbitrary: a)
  case Nil
  then show ?case by simp
next
  case (Cons x w)
  from Cons.prems have x0: "0 \<le> x" and w0: "\<forall>y\<in>set w. 0 \<le> y" by auto
  from Cons.prems(2) have "c = a + x \<or> c \<in> set (cumsum_from (a + x) w)" by simp
  then show ?case
  proof
    assume "c = a + x" with x0 show ?thesis by simp
  next
    assume "c \<in> set (cumsum_from (a + x) w)"
    from Cons.IH[OF w0 this] x0 show ?thesis by simp
  qed
qed

lemma cumsum_from_sorted: "\<forall>x\<in>set w. 0 \<le> x \<Longrightarrow> sorted (cumsum_from a w)"
proof (induction w arbitrary: a)
  case Nil
  then show ?case by simp
next
  case (Cons x w)
  then show ?case by (auto dest: cumsum_from_lower)
qed

lemma cumsum_from_last: "w \<noteq> [] \<Longrightarrow> last (cumsum_from a w) = a + sum_list w"
proof (induction w arbitrary: a)
  case Nil
  then show ?case by simp
next
  case (Cons x w)
  show ?case
  proof (cases "w = []")
    case True
    then show ?thesis by simp
  next
    case False
    then have "cumsum_from (a + x) w \<noteq> []" by (cases w) auto
    with Cons.IH[OF False, of "a + x"] show ?thesis by (simp add: add.assoc)
  qed
qed

lemma sorted_filter_less_takeWhile:
  "sorted xs \<Longrightarrow> filter (\<lambda>c. c < (u::real)) xs = takeWhile (\<lambda>c. c < u) xs"
proof (induction xs)
  case Nil
  then show ?case by simp
next
  case (Cons x xs)
  show ?case
  proof (cases "x < u")
    case True
    with Cons show ?thesis by simp
  next
    case False
    with Cons.prems have "\<forall>y\<in>set xs. \<not> y < u" by auto
    with False show ?thesis by (simp add: filter_empty_conv)
  qed
qed

lemma select_kernel_sorted:
  assumes "sorted cum"
  shows "(\<forall>j < select_kernel cum u. cum ! j < u)
       \<and> (select_kernel cum u < length cum \<longrightarrow> u \<le> cum ! select_kernel cum u)"
proof -
  have eq: "select_kernel cum u = length (takeWhile (\<lambda>c. c < u) cum)"
    by (simp add: select_kernel_def sorted_filter_less_takeWhile[OF assms])
  have a: "\<forall>j < select_kernel cum u. cum ! j < u"
    unfolding eq using nth_length_takeWhile takeWhile_nth
    by (metis (mono_tags, lifting) nth_mem set_takeWhileD)
  have b: "select_kernel cum u < length cum \<longrightarrow> u \<le> cum ! select_kernel cum u"
    unfolding eq using nth_length_takeWhile[of "\<lambda>c. c < u" cum] by auto
  from a b show ?thesis by blast
qed

lemma select_kernel_le: "select_kernel cum u \<le> length cum"
  by (simp add: select_kernel_def)

lemma select_kernel_last:
  assumes "cum \<noteq> []" "u \<le> last cum"
  shows "select_kernel cum u < length cum"
proof -
  have "\<not> (last cum < u)" using assms by simp
  then have "filter (\<lambda>c. c < u) cum \<noteq> cum"
    using assms(1) by (metis filter_id_conv last_in_set)
  then have "length (filter (\<lambda>c. c < u) cum) \<noteq> length cum"
    by (metis filter_True length_filter_le filter_id_conv le_neq_implies_less length_filter_less not_less_iff_gr_or_eq)
  then show ?thesis by (metis le_neq_implies_less length_filter_le select_kernel_def)
qed

text \<open>
  C2 (as the code has it). The cumulative sums are not normalised. For four non-negative
  weights whose total is not below the draw, the selected index is a valid kernel index:
  the number of cumulative bounds below the draw, which is the first index whose bound
  is at least the draw.
\<close>

theorem select_kernel_valid:
  assumes "length w = 4" "\<forall>x\<in>set w. 0 \<le> x" "u \<le> sum_list w"
  shows "select_kernel (cumsum w) u < length kernels
       \<and> u \<le> cumsum w ! select_kernel (cumsum w) u
       \<and> (\<forall>j < select_kernel (cumsum w) u. cumsum w ! j < u)"
proof -
  have ne: "w \<noteq> []" using assms(1) by auto
  have len: "length (cumsum w) = 4" by (simp add: cumsum_def cumsum_from_length assms(1))
  then have ne': "cumsum w \<noteq> []" by auto
  have "last (cumsum w) = sum_list w" using cumsum_from_last[OF ne, of 0] by (simp add: cumsum_def)
  with assms(3) have lt: "select_kernel (cumsum w) u < length (cumsum w)"
    using select_kernel_last[OF ne'] by simp
  have srt: "sorted (cumsum w)" using cumsum_from_sorted[OF assms(2)] by (simp add: cumsum_def)
  from select_kernel_sorted[OF srt, of u] lt len show ?thesis by (simp add: kernels_def)
qed

theorem select_kernel_valid_witness:
  "length default_probs = 4 \<and> list_all (\<lambda>x. 0 \<le> x) default_probs \<and> 99 / 100 \<le> sum_list default_probs
   \<and> select_kernel (cumsum default_probs) (99 / 100) = 2 \<and> 2 < length kernels"
  using select_kernel_valid[of default_probs "99 / 100"]
  by (simp add: default_probs_def cumsum_def select_kernel_def)

text \<open>
  C2 as stated fails: the non-negative weights 0.1, 0.1, 0.1, 0.1 are not normalised by
  the cumulative sum, every bound is below the draw 0.9, and the selected index 4 is
  past the four kernels.
\<close>

theorem select_kernel_counterexample:
  "select_kernel (cumsum [1 / 10, 1 / 10, 1 / 10, 1 / 10]) (9 / 10) = 4 \<and> \<not> 4 < length kernels"
  by (simp add: cumsum_def select_kernel_def kernels_def)

subsection \<open>What kernels and proposals leave alone\<close>

lemma same_config_refl: "same_config s s"
  by (simp add: same_config_def)

lemma same_config_trans: "same_config a b \<Longrightarrow> same_config b c \<Longrightarrow> same_config a c"
  by (simp add: same_config_def)

lemma walk_frame:
  "walk s = Inr s' \<Longrightarrow> same_config s s' \<and> current_kernel s' = current_kernel s \<and> phi s' = phi s"
  by (auto simp: walk_def Let_def randomN_def same_config_def split: prod.splits if_splits)

lemma traverse_frame:
  "traverse s = Inr s' \<Longrightarrow> same_config s s' \<and> current_kernel s' = current_kernel s \<and> phi s' = phi s"
  by (auto simp: traverse_def Let_def random1_def same_config_def split: prod.splits if_splits)

lemma blow_frame:
  "blow s = Inr s' \<Longrightarrow> same_config s s' \<and> current_kernel s' = current_kernel s \<and> phi s' = phi s"
  by (auto simp: blow_def Let_def rnormal_def same_config_def split: prod.splits sum.splits)

lemma hop_frame:
  "hop s = Inr s' \<Longrightarrow> same_config s s' \<and> current_kernel s' = current_kernel s \<and> phi s' = phi s"
  by (auto simp: hop_def Let_def rnormal_def same_config_def split: prod.splits sum.splits)

lemma run_kernel_frame:
  "run_kernel k s = Inr s' \<Longrightarrow> same_config s s' \<and> current_kernel s' = current_kernel s \<and> phi s' = phi s"
  by (cases k) (simp_all add: run_kernel_def walk_frame traverse_frame blow_frame hop_frame)

lemma walk_error: "walk s = Inl (e, s') \<Longrightarrow> e = ZeroDivisionError"
  by (auto simp: walk_def Let_def split: prod.splits if_splits)

lemma traverse_error: "traverse s = Inl (e, s') \<Longrightarrow> e = ZeroDivisionError"
  by (auto simp: traverse_def Let_def split: prod.splits if_splits)

lemma pymax_error: "pymax xs = Inl e \<Longrightarrow> e = ValueError"
  by (auto simp: pymax_def split: list.splits)

lemma blow_error: "blow s = Inl (e, s') \<Longrightarrow> e = ValueError"
  by (auto simp: blow_def Let_def split: prod.splits sum.splits dest: pymax_error)

lemma hop_error: "hop s = Inl (e, s') \<Longrightarrow> e = ValueError"
  by (auto simp: hop_def Let_def split: prod.splits sum.splits dest: pymax_error)

lemma run_kernel_error: "run_kernel k s = Inl (e, s') \<Longrightarrow> e \<noteq> ZeroProbability"
  by (cases k) (auto simp: run_kernel_def dest: walk_error traverse_error blow_error hop_error)

lemma propose_error: "propose s = Inl (e, s') \<Longrightarrow> e \<noteq> ZeroProbability"
  by (auto simp: propose_def Let_def split: prod.splits if_splits dest: run_kernel_error)

lemma propose_frame:
  assumes "propose s = Inr s'"
  shows "same_config s s' \<and> (\<exists>k. current_kernel s' = Some k \<and> k < length kernels)"
proof -
  obtain u r1 where d1: "random1 (gen s) = (u, r1)" by (cases "random1 (gen s)")
  define k where "k = select_kernel (cum_probs s) u"
  define s1 where "s1 = s\<lparr>current_kernel := Some k, gen := r1\<rparr>"
  obtain us r2 where d2: "randomN (len s) r1 = (us, r2)" by (cases "randomN (len s) r1")
  define s2 where "s2 = s1\<lparr>phi := map (\<lambda>v. v < p s) us, gen := r2\<rparr>"
  from assms have kk: "k < length kernels" and run: "run_kernel (kernels ! k) s2 = Inr s'"
    by (auto simp: propose_def Let_def d1 d2 k_def s1_def s2_def split: if_splits)
  have "same_config s s2"
    using d1 d2 by (auto simp: same_config_def s2_def s1_def random1_def randomN_def)
  moreover have "current_kernel s2 = Some k" by (simp add: s2_def s1_def)
  ultimately show ?thesis
    using run_kernel_frame[OF run] kk by (auto intro: same_config_trans)
qed

lemma propose_loop_result:
  assumes "propose_loop support s = Some y"
  shows "loop_post support s y"
proof (rule propose_loop.raw_induct[where P = loop_post, OF _ assms])
  fix f :: "(vec \<Rightarrow> bool) \<Rightarrow> twalk \<Rightarrow> (twalk res) option" and support s y
  assume IH: "\<And>sup t z. f sup t = Some z \<Longrightarrow> loop_post sup t z"
    and body: "(case propose s of
                  Inl e \<Rightarrow> Some (Inl e)
                | Inr s1 \<Rightarrow> if support (svalue (stochastic s1)) then Some (Inr s1) else f support s1) = Some y"
  show "loop_post support s y"
  proof (cases "propose s")
    case (Inl e)
    with body have "y = Inl e" by simp
    with Inl show ?thesis by (cases e) (auto simp: loop_post_def dest: propose_error)
  next
    case (Inr s1)
    note fr = propose_frame[OF Inr]
    show ?thesis
    proof (cases "support (svalue (stochastic s1))")
      case True
      with body Inr have "y = Inr s1" by simp
      with fr True show ?thesis by (simp add: loop_post_def)
    next
      case False
      with body Inr have "f support s1 = Some y" by simp
      from IH[OF this] fr show ?thesis
        by (auto simp: loop_post_def split: sum.splits intro: same_config_trans)
    qed
  qed
qed

lemma propose_loop_Inr:
  "propose_loop support s = Some (Inr s') \<Longrightarrow>
     same_config s s' \<and> (\<exists>k. current_kernel s' = Some k \<and> k < length kernels)
     \<and> support (svalue (stochastic s'))"
  using propose_loop_result[of support s "Inr s'"] by (simp add: loop_post_def)

lemma propose_loop_Inl:
  "propose_loop support s = Some (Inl (e, s')) \<Longrightarrow> e \<noteq> ZeroProbability"
  using propose_loop_result[of support s "Inl (e, s')"] by (simp add: loop_post_def)

lemma commit_visible: "svalue (stochastic (commit s)) = fst (vals (commit s))"
  by (simp add: commit_def Let_def set_value_def)

lemma step_returns_commit:
  "step support logp s = Some (Inr s') \<Longrightarrow> \<exists>t. s' = commit t"
  by (auto simp: step_def Let_def split: option.splits sum.splits prod.splits if_splits)

subsection \<open>Evaluating the examples\<close>

lemma cum_default: "cumsum default_probs = [4918 / 10000, 9836 / 10000, 9918 / 10000, 1]"
  by (simp add: cumsum_def default_probs_def)

lemmas run_simps =
  sampler_def choose_pivot_def random1_def randomN_def rnormal_def rng_of_def tape_def
  propose_def cum_default select_kernel_def kernels_def run_kernel_def walk_def traverse_def
  blow_def hop_def Let_def points_def vadd_def vsub_def vmul_def vabs_def smul_def mask_def
  unmask_def pymax_def set_value_def revert_def power2_eq_square propose_loop.simps nonneg_def
  step_def try_body_def nsum_def log_gt_def reject_def accept_def incr_at_def commit_def
  g_def g_masked_def nan_sub_def proposal_rejected_def rejected_at_def

subsection \<open>The visible value after a step\<close>

text \<open>
  C5. Whenever \<^verbatim>\<open>step()\<close> returns, whichever pivot was chosen and however the proposal
  ended, the variable's visible value is the primary point \<^verbatim>\<open>values[0]\<close>.
\<close>

theorem step_visible_primary:
  "step support logp s = Some (Inr s') \<Longrightarrow> svalue (stochastic s') = fst (vals s')"
  using step_returns_commit[of support logp s s'] commit_visible by auto

text \<open>
  A step with the auxiliary point as pivot, accepted: the auxiliary point moves to 0.4,
  the variable shows the primary point 0.
\<close>

theorem step_visible_primary_witness:
  "\<exists>s'. step nonneg flat_logp prime_sampler = Some (Inr s')
        \<and> svalue (stochastic s') = [0] \<and> vals s' = ([0], [2 / 5])"
proof -
  have "\<exists>s'. step nonneg flat_logp prime_sampler = Some (Inr s') \<and> snd (vals s') = [2 / 5]
          \<and> fst (vals s') = [0]"
    by (simp add: prime_sampler_def flat_logp_def run_simps)
  then obtain s' where s: "step nonneg flat_logp prime_sampler = Some (Inr s')"
    and v: "snd (vals s') = [2 / 5]" "fst (vals s') = [0]" by blast
  from step_visible_primary[OF s] v s show ?thesis by (cases "vals s'") auto
qed

subsection \<open>The counters\<close>

lemma incr_at_Some:
  "incr_at (Some k) a = Inr b \<Longrightarrow> k < length a \<and> b = a[k := a ! k + 1]"
  by (auto simp: incr_at_def split: if_splits)

lemma incr_at_error: "incr_at ko a = Inl e \<Longrightarrow> e = IndexError"
  by (auto simp: incr_at_def split: option.splits if_splits)

lemma reject_Inr:
  assumes "reject s = Inr s'" "current_kernel s = Some k"
  shows "k < length (rejected s) \<and> rejected s' = (rejected s)[k := rejected s ! k + 1]
       \<and> accepted s' = accepted s \<and> current_kernel s' = Some k \<and> phi s' = phi s
       \<and> vals s' = vals s \<and> prime s' = prime s
       \<and> svalue (stochastic s') = last_value (stochastic s)"
  using assms
  by (auto simp: reject_def Let_def revert_def split: sum.splits dest!: incr_at_Some)

lemma accept_Inr:
  assumes "accept s = Inr s'" "current_kernel s = Some k"
  shows "k < length (accepted s) \<and> accepted s' = (accepted s)[k := accepted s ! k + 1]
       \<and> rejected s' = rejected s \<and> current_kernel s' = Some k \<and> phi s' = phi s"
  using assms
  by (auto simp: accept_def split: sum.splits dest!: incr_at_Some)

lemma reject_error: "reject s = Inl (e, s') \<Longrightarrow> e = IndexError"
  by (auto simp: reject_def Let_def split: sum.splits dest: incr_at_error)

lemma accept_error: "accept s = Inl (e, s') \<Longrightarrow> e = IndexError"
  by (auto simp: accept_def split: sum.splits dest: incr_at_error)

lemma commit_frame:
  "accepted (commit s) = accepted s \<and> rejected (commit s) = rejected s
   \<and> current_kernel (commit s) = current_kernel s \<and> phi (commit s) = phi s"
  by (simp add: commit_def Let_def)

lemma choose_pivot_frame:
  "accepted (choose_pivot s) = accepted s \<and> rejected (choose_pivot s) = rejected s"
  by (simp add: choose_pivot_def Let_def random1_def)

text \<open>The ways in which \<open>step\<close> returns.\<close>

lemma step_Inr_cases:
  assumes "step support logp s = Some (Inr s')"
  shows "\<exists>s3. propose_loop support (choose_pivot s) = Some (Inr s3)
          \<and> ((\<exists>s4. reject s3 = Inr s4 \<and> s' = commit s4)
             \<or> (nsum (phi s3) \<noteq> 0
                \<and> (\<exists>r s5. (reject (s3\<lparr>gen := r\<rparr>) = Inr s5 \<or> accept (s3\<lparr>gen := r\<rparr>) = Inr s5)
                      \<and> s' = commit s5)))"
proof -
  obtain lp where lp: "logp (svalue (stochastic (choose_pivot s))) = Some lp"
    using assms by (auto simp: step_def Let_def split: option.splits)
  obtain res where tb: "try_body support logp (choose_pivot s) = Some res"
    using assms lp by (auto simp: step_def Let_def split: option.splits)
  obtain y where lo: "propose_loop support (choose_pivot s) = Some y"
    using tb by (auto simp: try_body_def split: option.splits)
  show ?thesis
  proof (cases y)
    case (Inl ex)
    obtain e t where ex: "ex = (e, t)" by (cases ex)
    from propose_loop_Inl[of support "choose_pivot s" e t] lo Inl ex
    have "e \<noteq> ZeroProbability" by simp
    moreover from tb lo Inl ex have "res = Inl (e, t)" by (simp add: try_body_def)
    ultimately show ?thesis using assms lp tb by (simp add: step_def Let_def)
  next
    case (Inr s3)
    show ?thesis
    proof (cases "nsum (phi s3) = 0 \<or> logp (svalue (stochastic s3)) = None")
      case True
      with tb lo Inr have "res = Inl (ZeroProbability, s3)"
        by (auto simp: try_body_def split: if_splits)
      with assms lp tb lo Inr show ?thesis
        by (auto simp: step_def Let_def split: sum.splits)
    next
      case False
      then obtain lpp where "logp (svalue (stochastic s3)) = Some lpp" by auto
      with False tb lo Inr have "res = Inr (lpp, s3)"
        by (auto simp: try_body_def split: if_splits)
      with assms lp tb lo Inr False show ?thesis
        by (auto simp: step_def Let_def random1_def split: sum.splits if_splits)
    qed
  qed
qed

lemma step_error_cases:
  assumes "step support logp s = Some (Inl (e, t))"
    and "logp (svalue (stochastic (choose_pivot s))) = Some lp"
  shows "e \<noteq> ZeroProbability"
proof -
  obtain res where tb: "try_body support logp (choose_pivot s) = Some res"
    using assms by (auto simp: step_def Let_def split: option.splits)
  show ?thesis
  proof (cases res)
    case (Inl ex)
    obtain e1 t1 where ex: "ex = (e1, t1)" by (cases ex)
    show ?thesis
    proof (cases "e1 = ZeroProbability")
      case True
      with assms tb Inl ex show ?thesis
        by (auto simp: step_def Let_def split: sum.splits dest: reject_error)
    next
      case False
      with assms tb Inl ex show ?thesis by (auto simp: step_def Let_def)
    qed
  next
    case (Inr b)
    obtain lpp s3 where b: "b = (lpp, s3)" by (cases b)
    from assms tb Inr b show ?thesis
      by (auto simp: step_def Let_def random1_def split: sum.splits if_splits
               dest: reject_error accept_error)
  qed
qed

lemma step_outcome:
  assumes st: "step support logp s = Some (Inr s')"
  shows "\<exists>t lp r t4. propose_loop support (choose_pivot s) = Some (Inr t)
          \<and> logp (svalue (stochastic (choose_pivot s))) = Some lp
          \<and> s' = commit t4
          \<and> (if proposal_rejected logp lp t then reject (t\<lparr>gen := r\<rparr>) = Inr t4
              else accept (t\<lparr>gen := r\<rparr>) = Inr t4)"
proof -
  obtain lp where lp: "logp (svalue (stochastic (choose_pivot s))) = Some lp"
    using st by (auto simp: step_def Let_def split: option.splits)
  obtain res where tb: "try_body support logp (choose_pivot s) = Some res"
    using st lp by (auto simp: step_def Let_def split: option.splits)
  obtain y where lo: "propose_loop support (choose_pivot s) = Some y"
    using tb by (auto simp: try_body_def split: option.splits)
  show ?thesis
  proof (cases y)
    case (Inl ex)
    obtain e t where ex: "ex = (e, t)" by (cases ex)
    from propose_loop_Inl[of support "choose_pivot s" e t] lo Inl ex
    have "e \<noteq> ZeroProbability" by simp
    moreover from tb lo Inl ex have "res = Inl (e, t)" by (simp add: try_body_def)
    ultimately show ?thesis using st lp tb by (simp add: step_def Let_def)
  next
    case (Inr t)
    show ?thesis
    proof (cases "nsum (phi t) = 0 \<or> logp (svalue (stochastic t)) = None")
      case True
      then have rj: "proposal_rejected logp lp t"
        by (auto simp: proposal_rejected_def)
      from True tb lo Inr have "res = Inl (ZeroProbability, t)"
        by (auto simp: try_body_def split: if_splits)
      with st lp tb obtain t4 where "reject t = Inr t4" "s' = commit t4"
        by (auto simp: step_def Let_def split: sum.splits)
      then have "reject (t\<lparr>gen := gen t\<rparr>) = Inr t4 \<and> s' = commit t4" by simp
      with lo Inr lp rj show ?thesis by (metis (full_types))
    next
      case False
      then obtain lpp where lpp: "logp (svalue (stochastic t)) = Some lpp" and nz: "nsum (phi t) \<noteq> 0"
        by auto
      with tb lo Inr have res: "res = Inr (lpp, t)"
        by (auto simp: try_body_def split: if_splits)
      let ?u = "uniforms (gen t) (upos (gen t))"
      let ?t' = "t\<lparr>gen := (gen t)\<lparr>upos := upos (gen t) + 1\<rparr>\<rparr>"
      have pr: "proposal_rejected logp lp t
                  = log_gt ?u (map_option (\<lambda>h. lpp - lp + h) (hastings_factor t))"
        using lpp nz by (simp add: proposal_rejected_def)
      show ?thesis
      proof (cases "proposal_rejected logp lp t")
        case True
        with pr st lp tb res obtain t4 where "reject ?t' = Inr t4" "s' = commit t4"
          by (auto simp: step_def Let_def random1_def split: sum.splits)
        with lo Inr lp True show ?thesis by (metis (full_types))
      next
        case False
        with pr st lp tb res obtain t4 where "accept ?t' = Inr t4" "s' = commit t4"
          by (auto simp: step_def Let_def random1_def split: sum.splits)
        with lo Inr lp False show ?thesis by (metis (full_types))
      qed
    qed
  qed
qed

text \<open>
  C6. A step that returns has added exactly 1 to exactly one counter entry, at the index
  \<open>k\<close> of the kernel of the evaluated proposal \<open>t\<close>, every other entry of both arrays
  unchanged: \<^verbatim>\<open>rejected[k]\<close> when the proposal is rejected (empty mask, zero probability
  of the proposal, failed acceptance test), \<^verbatim>\<open>accepted[k]\<close> when it is accepted.
\<close>

theorem step_counters:
  assumes "step support logp s = Some (Inr s')"
  shows "\<exists>t k lp. propose_loop support (choose_pivot s) = Some (Inr t)
          \<and> logp (svalue (stochastic (choose_pivot s))) = Some lp
          \<and> current_kernel t = Some k \<and> current_kernel s' = Some k \<and> k < length kernels
          \<and> phi s' = phi t
          \<and> (if proposal_rejected logp lp t
              then k < length (rejected s) \<and> rejected s' = (rejected s)[k := rejected s ! k + 1]
                   \<and> accepted s' = accepted s
              else k < length (accepted s) \<and> accepted s' = (accepted s)[k := accepted s ! k + 1]
                   \<and> rejected s' = rejected s)"
proof -
  from step_outcome[OF assms] obtain t lp r t4 where
    lo: "propose_loop support (choose_pivot s) = Some (Inr t)" and
    lp: "logp (svalue (stochastic (choose_pivot s))) = Some lp" and
    s': "s' = commit t4" and
    oc: "if proposal_rejected logp lp t then reject (t\<lparr>gen := r\<rparr>) = Inr t4
         else accept (t\<lparr>gen := r\<rparr>) = Inr t4"
    by blast
  from propose_loop_Inr[OF lo] obtain k where
    cfg: "same_config (choose_pivot s) t" and k: "current_kernel t = Some k" "k < length kernels"
    by blast
  have acc: "accepted t = accepted s" and rej: "rejected t = rejected s"
    using cfg choose_pivot_frame[of s] by (simp_all add: same_config_def)
  have k': "current_kernel (t\<lparr>gen := r\<rparr>) = Some k" using k(1) by simp
  show ?thesis
  proof (cases "proposal_rejected logp lp t")
    case True
    with oc have "reject (t\<lparr>gen := r\<rparr>) = Inr t4" by simp
    from reject_Inr[OF this k'] acc rej s' commit_frame[of t4]
    have "k < length (rejected s) \<and> rejected s' = (rejected s)[k := rejected s ! k + 1]
          \<and> accepted s' = accepted s \<and> current_kernel s' = Some k \<and> phi s' = phi t"
      by simp
    with lo lp k True show ?thesis by auto
  next
    case False
    with oc have "accept (t\<lparr>gen := r\<rparr>) = Inr t4" by simp
    from accept_Inr[OF this k'] acc rej s' commit_frame[of t4]
    have "k < length (accepted s) \<and> accepted s' = (accepted s)[k := accepted s ! k + 1]
          \<and> rejected s' = rejected s \<and> current_kernel s' = Some k \<and> phi s' = phi t"
      by simp
    with lo lp k False show ?thesis by auto
  qed
qed

text \<open>A rejected step after a retry, and an accepted step with the auxiliary point as pivot.\<close>

theorem step_counters_witness:
  "(\<exists>s'. step nonneg retry_logp retry_sampler = Some (Inr s')
        \<and> current_kernel s' = Some 0 \<and> rejected s' = [1, 0, 0, 0] \<and> accepted s' = [0, 0, 0, 0])
   \<and> (\<exists>s'. step nonneg flat_logp prime_sampler = Some (Inr s')
        \<and> current_kernel s' = Some 0 \<and> accepted s' = [1, 0, 0, 0] \<and> rejected s' = [0, 0, 0, 0])"
proof
  have lp: "retry_logp (svalue (stochastic (choose_pivot retry_sampler))) = Some 0"
    by (simp add: retry_sampler_def retry_logp_def run_simps)
  have ev: "\<exists>t. propose_loop nonneg (choose_pivot retry_sampler) = Some (Inr t)
              \<and> proposal_rejected retry_logp 0 t \<and> current_kernel t = Some 0"
    by (simp add: retry_sampler_def retry_logp_def run_simps)
  have "\<exists>s'. step nonneg retry_logp retry_sampler = Some (Inr s')"
    by (simp add: retry_sampler_def retry_logp_def run_simps)
  then obtain s' where s: "step nonneg retry_logp retry_sampler = Some (Inr s')" by blast
  have acc: "accepted retry_sampler = [0, 0, 0, 0]" and rej: "rejected retry_sampler = [0, 0, 0, 0]"
    by (simp_all add: retry_sampler_def sampler_def)
  from step_counters[OF s] ev lp acc rej
  have "current_kernel s' = Some 0 \<and> rejected s' = [1, 0, 0, 0] \<and> accepted s' = [0, 0, 0, 0]"
    by auto
  with s show "\<exists>s'. step nonneg retry_logp retry_sampler = Some (Inr s')
        \<and> current_kernel s' = Some 0 \<and> rejected s' = [1, 0, 0, 0] \<and> accepted s' = [0, 0, 0, 0]"
    by blast
next
  have lp: "flat_logp (svalue (stochastic (choose_pivot prime_sampler))) = Some 0"
    by (simp add: flat_logp_def)
  have ev: "\<exists>t. propose_loop nonneg (choose_pivot prime_sampler) = Some (Inr t)
              \<and> \<not> proposal_rejected flat_logp 0 t \<and> current_kernel t = Some 0"
    by (simp add: prime_sampler_def flat_logp_def run_simps)
  have "\<exists>s'. step nonneg flat_logp prime_sampler = Some (Inr s')"
    by (simp add: prime_sampler_def flat_logp_def run_simps)
  then obtain s' where s: "step nonneg flat_logp prime_sampler = Some (Inr s')" by blast
  have acc: "accepted prime_sampler = [0, 0, 0, 0]" and rej: "rejected prime_sampler = [0, 0, 0, 0]"
    by (simp_all add: prime_sampler_def sampler_def)
  from step_counters[OF s] ev lp acc rej
  have "current_kernel s' = Some 0 \<and> accepted s' = [1, 0, 0, 0] \<and> rejected s' = [0, 0, 0, 0]"
    by auto
  with s show "\<exists>s'. step nonneg flat_logp prime_sampler = Some (Inr s')
        \<and> current_kernel s' = Some 0 \<and> accepted s' = [1, 0, 0, 0] \<and> rejected s' = [0, 0, 0, 0]"
    by blast
qed

subsection \<open>Zero probability\<close>

text \<open>
  C8 (as the code has it). \<^verbatim>\<open>step()\<close> raises \<^verbatim>\<open>ZeroProbability\<close> to its caller exactly when
  the log-probability of the pivot point, evaluated at line 307 before the \<^verbatim>\<open>try\<close>,
  raises it. Where the proposal that left the retry loop has an empty mask or an undefined
  log-probability, the step returns normally with the proposal rejected: the variable
  reverted, \<^verbatim>\<open>rejected[k]\<close> incremented, the value list updated.
\<close>

theorem step_zero_probability:
  "((\<exists>t. step support logp s = Some (Inl (ZeroProbability, t)))
      \<longleftrightarrow> logp (svalue (stochastic (choose_pivot s))) = None)
   \<and> (logp (svalue (stochastic (choose_pivot s))) = Some lp
        \<and> propose_loop support (choose_pivot s) = Some (Inr t)
        \<and> (nsum (phi t) = 0 \<or> logp (svalue (stochastic t)) = None)
        \<and> current_kernel t = Some k \<and> k < length (rejected t)
      \<longrightarrow> step support logp s = Some (Inr (commit (rejected_at k t))))"
proof -
  have a: "(\<exists>t. step support logp s = Some (Inl (ZeroProbability, t)))
      \<longleftrightarrow> logp (svalue (stochastic (choose_pivot s))) = None"
  proof
    assume "\<exists>t. step support logp s = Some (Inl (ZeroProbability, t))"
    then obtain t where t: "step support logp s = Some (Inl (ZeroProbability, t))" by blast
    show "logp (svalue (stochastic (choose_pivot s))) = None"
    proof (rule ccontr)
      assume "logp (svalue (stochastic (choose_pivot s))) \<noteq> None"
      then obtain lp where "logp (svalue (stochastic (choose_pivot s))) = Some lp" by auto
      from step_error_cases[OF t this] show False by simp
    qed
  next
    assume "logp (svalue (stochastic (choose_pivot s))) = None"
    then show "\<exists>t. step support logp s = Some (Inl (ZeroProbability, t))"
      by (simp add: step_def Let_def)
  qed
  have b: "logp (svalue (stochastic (choose_pivot s))) = Some lp
        \<and> propose_loop support (choose_pivot s) = Some (Inr t)
        \<and> (nsum (phi t) = 0 \<or> logp (svalue (stochastic t)) = None)
        \<and> current_kernel t = Some k \<and> k < length (rejected t)
      \<longrightarrow> step support logp s = Some (Inr (commit (rejected_at k t)))"
  proof
    assume h: "logp (svalue (stochastic (choose_pivot s))) = Some lp
        \<and> propose_loop support (choose_pivot s) = Some (Inr t)
        \<and> (nsum (phi t) = 0 \<or> logp (svalue (stochastic t)) = None)
        \<and> current_kernel t = Some k \<and> k < length (rejected t)"
    then have tb: "try_body support logp (choose_pivot s) = Some (Inl (ZeroProbability, t))"
      by (auto simp: try_body_def)
    from h have rj: "reject t = Inr (rejected_at k t)"
      by (simp add: reject_def Let_def incr_at_def rejected_at_def)
    from h tb rj show "step support logp s = Some (Inr (commit (rejected_at k t)))"
      by (simp add: step_def Let_def)
  qed
  from a b show ?thesis by blast
qed

text \<open>
  A proposal with undefined log-probability and a proposal with an empty mask: both steps
  return with \<^verbatim>\<open>rejected[0]\<close> incremented and the variable at its value before the step.
\<close>

theorem step_zero_probability_witness:
  "origin_logp (svalue (stochastic (choose_pivot single_sampler))) = Some 0
   \<and> (\<exists>s'. step nonneg origin_logp single_sampler = Some (Inr s')
          \<and> rejected s' = [1, 0, 0, 0] \<and> accepted s' = [0, 0, 0, 0]
          \<and> svalue (stochastic s') = [0] \<and> vals s' = ([0], [1]))
   \<and> (\<exists>s'. step nonneg flat_logp empty_mask_sampler = Some (Inr s')
          \<and> phi s' = [False, False] \<and> rejected s' = [1, 0, 0, 0] \<and> accepted s' = [0, 0, 0, 0]
          \<and> svalue (stochastic s') = [0, 0] \<and> vals s' = ([0, 0], [1, 1]))
   \<and> \<not> (\<exists>t. step nonneg origin_logp single_sampler = Some (Inl (ZeroProbability, t)))"
proof -
  have lp1: "origin_logp (svalue (stochastic (choose_pivot single_sampler))) = Some 0"
    by (simp add: single_sampler_def origin_logp_def run_simps)
  have ev1: "\<exists>t. propose_loop nonneg (choose_pivot single_sampler) = Some (Inr t)
              \<and> origin_logp (svalue (stochastic t)) = None \<and> nsum (phi t) = 1
              \<and> current_kernel t = Some 0 \<and> 0 < length (rejected t)
              \<and> rejected (commit (rejected_at 0 t)) = [1, 0, 0, 0]
              \<and> accepted (commit (rejected_at 0 t)) = [0, 0, 0, 0]
              \<and> svalue (stochastic (commit (rejected_at 0 t))) = [0]
              \<and> vals (commit (rejected_at 0 t)) = ([0], [1])"
    by (simp add: single_sampler_def origin_logp_def run_simps)
  then obtain t1 where t1: "propose_loop nonneg (choose_pivot single_sampler) = Some (Inr t1)"
    "origin_logp (svalue (stochastic t1)) = None" "current_kernel t1 = Some 0" "0 < length (rejected t1)"
    "rejected (commit (rejected_at 0 t1)) = [1, 0, 0, 0]"
    "accepted (commit (rejected_at 0 t1)) = [0, 0, 0, 0]"
    "svalue (stochastic (commit (rejected_at 0 t1))) = [0]"
    "vals (commit (rejected_at 0 t1)) = ([0], [1])" by blast
  from step_zero_probability[of nonneg origin_logp single_sampler 0 t1 0] lp1 t1
  have s1: "step nonneg origin_logp single_sampler = Some (Inr (commit (rejected_at 0 t1)))"
    and n1: "\<not> (\<exists>t. step nonneg origin_logp single_sampler = Some (Inl (ZeroProbability, t)))"
    by simp_all
  have lp2: "flat_logp (svalue (stochastic (choose_pivot empty_mask_sampler))) = Some 0"
    by (simp add: flat_logp_def)
  have ev2: "\<exists>t. propose_loop nonneg (choose_pivot empty_mask_sampler) = Some (Inr t)
              \<and> nsum (phi t) = 0
              \<and> current_kernel t = Some 0 \<and> 0 < length (rejected t)
              \<and> phi (commit (rejected_at 0 t)) = [False, False]
              \<and> rejected (commit (rejected_at 0 t)) = [1, 0, 0, 0]
              \<and> accepted (commit (rejected_at 0 t)) = [0, 0, 0, 0]
              \<and> svalue (stochastic (commit (rejected_at 0 t))) = [0, 0]
              \<and> vals (commit (rejected_at 0 t)) = ([0, 0], [1, 1])"
    by (simp add: empty_mask_sampler_def run_simps)
  then obtain t2 where t2: "propose_loop nonneg (choose_pivot empty_mask_sampler) = Some (Inr t2)"
    "nsum (phi t2) = 0" "current_kernel t2 = Some 0" "0 < length (rejected t2)"
    "phi (commit (rejected_at 0 t2)) = [False, False]"
    "rejected (commit (rejected_at 0 t2)) = [1, 0, 0, 0]"
    "accepted (commit (rejected_at 0 t2)) = [0, 0, 0, 0]"
    "svalue (stochastic (commit (rejected_at 0 t2))) = [0, 0]"
    "vals (commit (rejected_at 0 t2)) = ([0, 0], [1, 1])" by blast
  from step_zero_probability[of nonneg flat_logp empty_mask_sampler 0 t2 0] lp2 t2
  have s2: "step nonneg flat_logp empty_mask_sampler = Some (Inr (commit (rejected_at 0 t2)))"
    by simp
  from lp1 s1 n1 s2 t1 t2 show ?thesis by simp
qed

text \<open>
  C8 as stated fails: where the log-probability of the pivot point is undefined, the
  condition reaches the caller, with no proposal made and nothing rejected.
\<close>

theorem step_zero_probability_counterexample:
  "step nonneg no_logp prime_sampler = Some (Inl (ZeroProbability, choose_pivot prime_sampler))"
  by (simp add: step_def Let_def no_logp_def)

subsection \<open>The property \<^verbatim>\<open>n1\<close>\<close>

text \<open>
  C10. On a sampler as constructed, reading \<^verbatim>\<open>n1\<close> raises, since the constructor never
  sets \<^verbatim>\<open>_n1\<close>; assigning to \<^verbatim>\<open>n1\<close> raises as well, since there is no \<^verbatim>\<open>_calc_p\<close>, and
  leaves \<open>p\<close> as it was. (The failed assignment has stored \<^verbatim>\<open>_n1\<close> before it raises.)
\<close>

theorem n1_property_raises:
  assumes "init v0 fresh inits kernel_probs wtheta ttheta n r = Inr s"
  shows "n1_fget s = Inl (AttributeError, s)
       \<and> n1_fset None v s = Inl (AttributeError, s\<lparr>n1_attr := Some v\<rparr>)
       \<and> p (s\<lparr>n1_attr := Some v\<rparr>) = p s"
proof -
  from assms have "n1_attr s = None"
    by (auto simp: init_def Let_def split: if_splits option.splits prod.splits)
  then show ?thesis by (simp add: n1_fget_def n1_fset_def Let_def)
qed

theorem n1_property_raises_witness:
  "init [0] [] (Some [1]) default_probs (3 / 2) 6 4 (rng_of [] []) = Inr (sampler [0] [1] 4 (rng_of [] []))
   \<and> n1_fget (sampler [0] [1] 4 (rng_of [] [])) = Inl (AttributeError, sampler [0] [1] 4 (rng_of [] []))
   \<and> (\<exists>t. n1_fset None 7 (sampler [0] [1] 4 (rng_of [] [])) = Inl (AttributeError, t)
          \<and> n1_attr t = Some 7 \<and> p t = 1)"
proof -
  have i: "init [0] [] (Some [1]) default_probs (3 / 2) 6 4 (rng_of [] []) = Inr (sampler [0] [1] 4 (rng_of [] []))"
    by (simp add: init_def sampler_def Let_def default_probs_def)
  from n1_property_raises[OF i, of 7] i show ?thesis by (simp add: sampler_def)
qed

subsection \<open>The retry loop\<close>

lemma walk_ok: "1 + walk_theta s \<noteq> 0 \<Longrightarrow> \<exists>s'. walk s = Inr s'"
  by (simp add: walk_def Let_def split: prod.splits)

lemma traverse_ok:
  "traverse_theta s \<noteq> 0 \<Longrightarrow> traverse_theta s + 1 \<noteq> 0 \<Longrightarrow> 1 - traverse_theta s \<noteq> 0
   \<Longrightarrow> \<exists>s'. traverse s = Inr s'"
  by (simp add: traverse_def Let_def split: prod.splits)

lemma pymax_ok: "xs \<noteq> [] \<Longrightarrow> \<exists>m. pymax xs = Inr m"
  by (cases xs) (simp_all add: pymax_def)

lemma spread_nonempty:
  assumes "phi s \<noteq> []" "fst (vals s) \<noteq> []" "snd (vals s) \<noteq> []"
  shows "vmul (mask (phi s)) (vabs (vsub (snd (points s)) (fst (points s)))) \<noteq> []"
proof -
  have "length (vmul (mask (phi s)) (vabs (vsub (snd (points s)) (fst (points s)))))
        = min (length (phi s)) (min (length (fst (vals s))) (length (snd (vals s))))"
    by (simp add: vmul_def mask_def vabs_def vsub_def points_def min.commute)
  with assms show ?thesis by (metis length_0_conv min_def)
qed

lemma blow_ok:
  assumes "phi s \<noteq> []" "fst (vals s) \<noteq> []" "snd (vals s) \<noteq> []"
  shows "\<exists>s'. blow s = Inr s'"
proof -
  obtain m where "pymax (vmul (mask (phi s)) (vabs (vsub (snd (points s)) (fst (points s))))) = Inr m"
    using pymax_ok[OF spread_nonempty[OF assms]] by blast
  then show ?thesis by (simp add: blow_def Let_def split_def)
qed

lemma hop_ok:
  assumes "phi s \<noteq> []" "fst (vals s) \<noteq> []" "snd (vals s) \<noteq> []"
  shows "\<exists>s'. hop s = Inr s'"
proof -
  obtain m where "pymax (vmul (mask (phi s)) (vabs (vsub (snd (points s)) (fst (points s))))) = Inr m"
    using pymax_ok[OF spread_nonempty[OF assms]] by blast
  then show ?thesis by (simp add: hop_def Let_def split_def)
qed

lemma propose_unfold:
  "propose s =
     (let k = select_kernel (cum_probs s) (uniforms (gen s) (upos (gen s)))
      in if length kernels \<le> k
         then Inl (IndexError, s\<lparr>current_kernel := Some k, gen := (gen s)\<lparr>upos := upos (gen s) + 1\<rparr>\<rparr>)
         else run_kernel (kernels ! k)
                (s\<lparr>current_kernel := Some k,
                   phi := map (\<lambda>i. uniforms (gen s) (upos (gen s) + 1 + i) < p s) [0..<len s],
                   gen := (gen s)\<lparr>upos := upos (gen s) + 1 + len s\<rparr>\<rparr>))"
  by (simp add: propose_def Let_def random1_def randomN_def comp_def add.assoc)

lemma never_raises_config: "same_config s s' \<Longrightarrow> never_raises s \<Longrightarrow> never_raises s'"
  by (simp add: same_config_def never_raises_def)

lemma propose_never_raises:
  assumes "never_raises s"
  shows "\<exists>s1. propose s = Inr s1 \<and> never_raises s1"
proof -
  define k where "k = select_kernel (cum_probs s) (uniforms (gen s) (upos (gen s)))"
  define s2 where "s2 = s\<lparr>current_kernel := Some k,
                   phi := map (\<lambda>i. uniforms (gen s) (upos (gen s) + 1 + i) < p s) [0..<len s],
                   gen := (gen s)\<lparr>upos := upos (gen s) + 1 + len s\<rparr>\<rparr>"
  from assms have "k < length (cum_probs s)"
    unfolding k_def by (intro select_kernel_last) (simp_all add: never_raises_def)
  with assms have kk: "k < length kernels" by (simp add: never_raises_def)
  have pr: "propose s = run_kernel (kernels ! k) s2"
    using kk by (simp add: propose_unfold Let_def k_def[symmetric] s2_def)
  have ph: "phi s2 \<noteq> []" using assms by (simp add: s2_def never_raises_def)
  have th: "1 + walk_theta s2 \<noteq> 0" "traverse_theta s2 \<noteq> 0" "traverse_theta s2 + 1 \<noteq> 0"
    "1 - traverse_theta s2 \<noteq> 0" "fst (vals s2) \<noteq> []" "snd (vals s2) \<noteq> []"
    using assms by (simp_all add: s2_def never_raises_def)
  have "\<exists>s1. run_kernel (kernels ! k) s2 = Inr s1"
    using ph th by (cases "kernels ! k")
       (auto simp: run_kernel_def intro: walk_ok traverse_ok blow_ok hop_ok)
  then obtain s1 where s1: "propose s = Inr s1" using pr by auto
  from propose_frame[OF s1] assms have "never_raises s1" by (blast intro: never_raises_config)
  with s1 show ?thesis by blast
qed

lemma propose_loop_diverges:
  assumes ns: "\<forall>v. \<not> support v" and nr: "never_raises s"
  shows "propose_loop support s = None"
proof (rule ccontr)
  assume "propose_loop support s \<noteq> None"
  then obtain y where y: "propose_loop support s = Some y" by auto
  have "diverging support s y"
  proof (rule propose_loop.raw_induct[where P = diverging, OF _ y])
    fix f :: "(vec \<Rightarrow> bool) \<Rightarrow> twalk \<Rightarrow> (twalk res) option" and support s y
    assume IH: "\<And>sup t z. f sup t = Some z \<Longrightarrow> diverging sup t z"
      and body: "(case propose s of
                    Inl e \<Rightarrow> Some (Inl e)
                  | Inr s1 \<Rightarrow> if support (svalue (stochastic s1)) then Some (Inr s1) else f support s1) = Some y"
    show "diverging support s y"
      unfolding diverging_def
    proof
      assume a: "(\<forall>v. \<not> support v) \<and> never_raises s"
      then obtain s1 where s1: "propose s = Inr s1" "never_raises s1"
        using propose_never_raises by blast
      with body a have "f support s1 = Some y" by simp
      from IH[OF this] a s1(2) show False by (simp add: diverging_def)
    qed
  qed
  with ns nr show False by (simp add: diverging_def)
qed

lemma choose_pivot_never_raises: "never_raises s \<Longrightarrow> never_raises (choose_pivot s)"
  by (simp add: never_raises_def choose_pivot_def Let_def random1_def)

lemma walk_upos: "walk s = Inr s' \<Longrightarrow> upos (gen s) \<le> upos (gen s')"
  by (auto simp: walk_def Let_def randomN_def split: prod.splits if_splits)

lemma traverse_upos: "traverse s = Inr s' \<Longrightarrow> upos (gen s) \<le> upos (gen s')"
  by (auto simp: traverse_def Let_def random1_def split: prod.splits if_splits)

lemma blow_upos: "blow s = Inr s' \<Longrightarrow> upos (gen s) \<le> upos (gen s')"
  by (auto simp: blow_def Let_def rnormal_def split: prod.splits sum.splits)

lemma hop_upos: "hop s = Inr s' \<Longrightarrow> upos (gen s) \<le> upos (gen s')"
  by (auto simp: hop_def Let_def rnormal_def split: prod.splits sum.splits)

lemma run_kernel_upos: "run_kernel k s = Inr s' \<Longrightarrow> upos (gen s) \<le> upos (gen s')"
  by (cases k) (simp_all add: run_kernel_def walk_upos traverse_upos blow_upos hop_upos)

lemma propose_fresh:
  assumes "propose s = Inr s1"
  shows "current_kernel s1 = Some (select_kernel (cum_probs s) (uniforms (gen s) (upos (gen s))))
       \<and> phi s1 = map (\<lambda>i. uniforms (gen s) (upos (gen s) + 1 + i) < p s) [0..<len s]
       \<and> upos (gen s) + 1 + len s \<le> upos (gen s1)"
proof -
  define k where "k = select_kernel (cum_probs s) (uniforms (gen s) (upos (gen s)))"
  define s2 where "s2 = s\<lparr>current_kernel := Some k,
                   phi := map (\<lambda>i. uniforms (gen s) (upos (gen s) + 1 + i) < p s) [0..<len s],
                   gen := (gen s)\<lparr>upos := upos (gen s) + 1 + len s\<rparr>\<rparr>"
  from assms have run: "run_kernel (kernels ! k) s2 = Inr s1"
    by (simp add: propose_unfold Let_def k_def[symmetric] s2_def split: if_splits)
  from run_kernel_frame[OF run] run_kernel_upos[OF run] show ?thesis
    by (simp add: s2_def k_def)
qed

text \<open>
  C9. The loop stops at the first proposal that satisfies the support predicate and only
  there; a proposal that fails it is followed by a whole new \<^verbatim>\<open>propose()\<close>, whose kernel
  index and mask come from the next unread draws of the tape. There is no bound: with a
  support predicate that nothing satisfies \<^verbatim>\<open>step()\<close> never returns a state, and where
  no proposal raises it does not end at all.
\<close>

theorem step_support_loop:
  "(propose s = Inr s1 \<and> support (svalue (stochastic s1))
      \<longrightarrow> propose_loop support s = Some (Inr s1))
   \<and> (propose s = Inr s1 \<and> \<not> support (svalue (stochastic s1))
      \<longrightarrow> propose_loop support s = propose_loop support s1)
   \<and> (propose s = Inr s1
      \<longrightarrow> current_kernel s1 = Some (select_kernel (cum_probs s) (uniforms (gen s) (upos (gen s))))
          \<and> phi s1 = map (\<lambda>i. uniforms (gen s) (upos (gen s) + 1 + i) < p s) [0..<len s]
          \<and> upos (gen s) + 1 + len s \<le> upos (gen s1))
   \<and> (propose_loop support s = Some (Inr s') \<longrightarrow> support (svalue (stochastic s')))
   \<and> ((\<forall>v. \<not> support v) \<longrightarrow> step support logp s \<noteq> Some (Inr s'))
   \<and> ((\<forall>v. \<not> support v) \<and> never_raises s
        \<and> logp (svalue (stochastic (choose_pivot s))) \<noteq> None
      \<longrightarrow> step support logp s = None)"
proof (intro conjI impI)
  assume "propose s = Inr s1 \<and> support (svalue (stochastic s1))"
  then show "propose_loop support s = Some (Inr s1)"
    by (subst propose_loop.simps) simp
next
  assume "propose s = Inr s1 \<and> \<not> support (svalue (stochastic s1))"
  then show "propose_loop support s = propose_loop support s1"
    by (subst propose_loop.simps) simp
next
  assume "propose s = Inr s1"
  then show "current_kernel s1 = Some (select_kernel (cum_probs s) (uniforms (gen s) (upos (gen s))))"
    "phi s1 = map (\<lambda>i. uniforms (gen s) (upos (gen s) + 1 + i) < p s) [0..<len s]"
    "upos (gen s) + 1 + len s \<le> upos (gen s1)"
    using propose_fresh by blast+
next
  assume "propose_loop support s = Some (Inr s')"
  then show "support (svalue (stochastic s'))" using propose_loop_Inr by blast
next
  assume ns: "\<forall>v. \<not> support v"
  show "step support logp s \<noteq> Some (Inr s')"
  proof
    assume "step support logp s = Some (Inr s')"
    from step_Inr_cases[OF this] obtain s3 where
      "propose_loop support (choose_pivot s) = Some (Inr s3)" by blast
    from propose_loop_Inr[OF this] ns show False by blast
  qed
next
  assume a: "(\<forall>v. \<not> support v) \<and> never_raises s
        \<and> logp (svalue (stochastic (choose_pivot s))) \<noteq> None"
  then have "propose_loop support (choose_pivot s) = None"
    using propose_loop_diverges choose_pivot_never_raises by blast
  with a show "step support logp s = None"
    by (auto simp: step_def Let_def try_body_def)
qed

theorem step_support_loop_witness:
  "step no_support flat_logp half_sampler = None"
proof -
  have nr: "never_raises half_sampler"
    by (simp add: never_raises_def half_sampler_def sampler_def cum_default kernels_def)
  have "\<forall>v. \<not> no_support v" by (simp add: no_support_def)
  with nr step_support_loop[of half_sampler _ no_support _ flat_logp] show ?thesis
    by (simp add: flat_logp_def)
qed

subsection \<open>Rejection after a retry\<close>

text \<open>
  C1 fails on the code. The first proposal, -0.225, is outside the support; the second,
  0.6, is inside and fails the acceptance test. \<^verbatim>\<open>reject()\<close> reverts to the value before
  the most recent assignment, which is the first proposal and not the value 0 that the
  variable had before the step; the update of the value list then stores it as the
  primary point.
\<close>

theorem retry_reject_keeps_rejected_proposal:
  "\<exists>s'. step nonneg retry_logp retry_sampler = Some (Inr s')
        \<and> svalue (stochastic retry_sampler) = [0]
        \<and> rejected s' = [1, 0, 0, 0]
        \<and> svalue (stochastic s') = [- (9 / 40)] \<and> vals s' = ([- (9 / 40)], [1])"
  by (simp add: retry_sampler_def retry_logp_def run_simps)

text \<open>
  C7 fails on the code, by the same defect. The first proposal is outside the support,
  the second has an empty mask. The step counts a rejection for the chosen kernel and
  returns early, but the variable is left at the first proposal, not at its value before
  the step.
\<close>

theorem zero_mask_after_retry:
  "\<exists>s'. step nonneg flat_logp zero_mask_sampler = Some (Inr s')
        \<and> svalue (stochastic zero_mask_sampler) = [0, 0]
        \<and> phi s' = [False, False] \<and> rejected s' = [1, 0, 0, 0]
        \<and> svalue (stochastic s') = [- (9 / 40), - (9 / 40)]
        \<and> vals s' = ([- (9 / 40), - (9 / 40)], [1, 1])"
  by (simp add: zero_mask_sampler_def flat_logp_def run_simps)

subsection \<open>The blow kernel\<close>

text \<open>
  C3 fails on the code. Both coordinates are masked and the normal tape reads 1, 5. The
  kernel takes one draw for the whole vector: both coordinates move by
  \<open>sigma * 1 = 2\<close>, and the second normal draw stays unread.
\<close>

theorem blow_shares_one_draw:
  "\<exists>s'. propose blow_sampler = Inr s' \<and> current_kernel s' = Some 2 \<and> phi s' = [True, True]
        \<and> normals (gen blow_sampler) 0 = 1 \<and> normals (gen blow_sampler) 1 = 5
        \<and> npos (gen s') = 1 \<and> svalue (stochastic s') = [2, 2]"
  by (simp add: blow_sampler_def run_simps)

subsection \<open>The hastings factor of blow and hop\<close>

lemma sum_mask_split:
  "length ph = length v \<Longrightarrow>
     sum_list v = sum_list (vmul (mask ph) v) + sum_list (vmul (unmask ph) v)"
  by (induction ph v rule: list_induct2) (simp_all add: vmul_def mask_def unmask_def)

lemma unmasked_squares_eq:
  assumes "length h1 = length ph" "length h2 = length ph" "length xp = length ph"
    and "\<forall>i<length ph. \<not> ph ! i \<longrightarrow> h1 ! i = h2 ! i"
  shows "vmul (unmask ph) (map (\<lambda>d. d ^ 2) (vsub h1 xp))
       = vmul (unmask ph) (map (\<lambda>d. d ^ 2) (vsub h2 xp))"
  using assms by (intro nth_equalityI) (auto simp: vmul_def unmask_def vsub_def)

lemma g_difference_masked:
  assumes "length h1 = length ph" "length h2 = length ph" "length xp = length ph"
    and "\<forall>i<length ph. \<not> ph ! i \<longrightarrow> h1 ! i = h2 ! i"
    and "0 < m"
  shows "nan_sub (g ph h1 xp m) (g ph h2 xp m)
       = nan_sub (g_masked ph h1 xp m) (g_masked ph h2 xp m)"
proof -
  let ?q = "\<lambda>h. map (\<lambda>d. d ^ 2) (vsub h xp)"
  have l: "length ph = length (?q h1)" "length ph = length (?q h2)"
    using assms by (simp_all add: vsub_def)
  have "sum_list (?q h1) - sum_list (?q h2)
      = sum_list (vmul (mask ph) (?q h1)) - sum_list (vmul (mask ph) (?q h2))"
    using sum_mask_split[OF l(1)] sum_mask_split[OF l(2)]
      unmasked_squares_eq[OF assms(1) assms(2) assms(3) assms(4)]
    by simp
  then have "0.5 * sum_list (?q h1) / m ^ 2 - 0.5 * sum_list (?q h2) / m ^ 2
      = 0.5 * sum_list (vmul (mask ph) (?q h1)) / m ^ 2
        - 0.5 * sum_list (vmul (mask ph) (?q h2)) / m ^ 2"
    by (simp add: diff_divide_distrib[symmetric] right_diff_distrib[symmetric])
  with assms(5) show ?thesis by (simp add: g_def g_masked_def nan_sub_def Let_def)
qed

lemma blow_value:
  assumes "pymax (vmul (mask (phi s)) (vabs (vsub xp x))) = Inr m" "points s = (x, xp)"
  shows "\<exists>s'. blow s = Inr s'
          \<and> svalue (stochastic s') = vadd x (map (\<lambda>b. of_bool b * m * normals (gen s) (npos (gen s))) (phi s))
          \<and> hastings_factor s' = nan_sub (g (phi s) (svalue (stochastic s')) xp m)
                                          (g (phi s) (svalue (stochastic s)) xp m)"
  using assms by (simp add: blow_def Let_def rnormal_def set_value_def)

lemma hop_value:
  assumes "pymax (vmul (mask (phi s)) (vabs (vsub xp x))) = Inr m" "points s = (x, xp)"
  shows "\<exists>s'. hop s = Inr s'
          \<and> svalue (stochastic s') =
              vadd (vmul (map (\<lambda>v. v + m / 3 * normals (gen s) (npos (gen s))) xp) (mask (phi s)))
                   (vmul x (unmask (phi s)))
          \<and> hastings_factor s' = nan_sub (g (phi s) (svalue (stochastic s')) xp (m / 3))
                                          (g (phi s) (svalue (stochastic s)) xp (m / 3))"
  using assms by (simp add: hop_def Let_def rnormal_def set_value_def)

text \<open>
  While the live value is the point to move and \<open>sigma\<close> is positive, the hastings factor
  of blow and hop is the difference of \<open>g\<close> with the quadratic term summed over the masked
  coordinates only: the terms of the unmasked coordinates cancel.
\<close>

lemma hastings_factor_first_proposal:
  assumes mx: "pymax (vmul (mask (phi s)) (vabs (vsub xp x))) = Inr m"
    and pos: "0 < m"
    and pt: "points s = (x, xp)"
    and len: "length x = length (phi s)" "length xp = length (phi s)"
    and live: "svalue (stochastic s) = x"
  shows "(\<exists>s'. blow s = Inr s'
            \<and> hastings_factor s' = nan_sub (g_masked (phi s) (svalue (stochastic s')) xp m)
                                            (g_masked (phi s) x xp m))
       \<and> (\<exists>s'. hop s = Inr s'
            \<and> hastings_factor s' = nan_sub (g_masked (phi s) (svalue (stochastic s')) xp (m / 3))
                                            (g_masked (phi s) x xp (m / 3)))"
proof
  from blow_value[OF mx pt] obtain s' where b: "blow s = Inr s'"
    and v: "svalue (stochastic s') = vadd x (map (\<lambda>b. of_bool b * m * normals (gen s) (npos (gen s))) (phi s))"
    and h: "hastings_factor s' = nan_sub (g (phi s) (svalue (stochastic s')) xp m)
                                         (g (phi s) (svalue (stochastic s)) xp m)" by blast
  have lv: "length (svalue (stochastic s')) = length (phi s)" using v len by (simp add: vadd_def)
  have un: "\<forall>i<length (phi s). \<not> phi s ! i \<longrightarrow> svalue (stochastic s') ! i = x ! i"
    using len by (simp add: v vadd_def)
  from g_difference_masked[OF lv len(1) len(2) un pos] h live
  have "hastings_factor s' = nan_sub (g_masked (phi s) (svalue (stochastic s')) xp m)
                                     (g_masked (phi s) x xp m)" by simp
  with b show "\<exists>s'. blow s = Inr s'
            \<and> hastings_factor s' = nan_sub (g_masked (phi s) (svalue (stochastic s')) xp m)
                                            (g_masked (phi s) x xp m)" by blast
next
  from hop_value[OF mx pt] obtain s' where b: "hop s = Inr s'"
    and v: "svalue (stochastic s') =
              vadd (vmul (map (\<lambda>v. v + m / 3 * normals (gen s) (npos (gen s))) xp) (mask (phi s)))
                   (vmul x (unmask (phi s)))"
    and h: "hastings_factor s' = nan_sub (g (phi s) (svalue (stochastic s')) xp (m / 3))
                                         (g (phi s) (svalue (stochastic s)) xp (m / 3))" by blast
  have lv: "length (svalue (stochastic s')) = length (phi s)"
    using v len by (simp add: vadd_def vmul_def mask_def unmask_def)
  have un: "\<forall>i<length (phi s). \<not> phi s ! i \<longrightarrow> svalue (stochastic s') ! i = x ! i"
    using len by (simp add: v vadd_def vmul_def mask_def unmask_def)
  from pos have pos3: "0 < m / 3" by simp
  from g_difference_masked[OF lv len(1) len(2) un pos3] h live
  have "hastings_factor s' = nan_sub (g_masked (phi s) (svalue (stochastic s')) xp (m / 3))
                                     (g_masked (phi s) x xp (m / 3))" by simp
  with b show "\<exists>s'. hop s = Inr s'
            \<and> hastings_factor s' = nan_sub (g_masked (phi s) (svalue (stochastic s')) xp (m / 3))
                                            (g_masked (phi s) x xp (m / 3))" by blast
qed

text \<open>
  C4 fails on the code, by the defect of C1 and C7. After a proposal outside the support
  the live value still holds that proposal, [0, -0.225], and not the point to move,
  [0, 0]. A blow proposal with the mask on the first coordinate reads its old point from
  the live value: its hastings factor is -2401/3200, where the claim's formula for the
  move from [0, 0] to [1, 0] gives -1/2.
\<close>

theorem hastings_factor_after_retry:
  "map_option (map_sum fst proposal_view) (propose_loop nonneg (choose_pivot hastings_sampler))
      = Some (Inr (Some 2, [True, False], ([0, 0], [1, 1]), [1, 0], [0, - (9 / 40)],
                   Some (- (2401 / 3200))))
   \<and> nan_sub (g_masked [True, False] [1, 0] [1, 1] 1) (g_masked [True, False] [0, 0] [1, 1] 1)
        = Some (- (1 / 2))"
  by (simp add: hastings_sampler_def proposal_view_def run_simps)

end
